theory Spec2Isabelle
  imports Main "HOL-Library.Multiset"
begin

section \<open>Python strings\<close>

text \<open>
  A Python \<open>str\<close> is modelled as a \<open>string\<close>: the list of its characters, each a code
  point below 256 (the Latin-1 block of Unicode), so that \<open>length\<close> is Python's \<open>len\<close>.
  The bullet glyphs of the title parser's character class lie outside this range and
  cannot occur in a modelled string.
\<close>

text \<open>
  \<open>str.isspace\<close> on one character, which is also the class \<open>\s\<close> of \<open>re\<close> on a \<open>str\<close>
  pattern and what \<open>str.split()\<close> and \<open>str.strip()\<close> treat as whitespace: TAB, LF, VT, FF,
  CR, the separators 0x1C to 0x1F, the space, NEL (0x85) and the no-break space (0xA0).
\<close>

definition is_space :: "char \<Rightarrow> bool" where
  "is_space c \<longleftrightarrow> c \<in> {CHR 0x09, CHR 0x0A, CHR 0x0B, CHR 0x0C, CHR 0x0D,
     CHR 0x1C, CHR 0x1D, CHR 0x1E, CHR 0x1F, CHR '' '', CHR 0x85, CHR 0xA0}"

text \<open>The class \<open>\d\<close>: the decimal digits of the modelled range.\<close>

definition is_digit :: "char \<Rightarrow> bool" where
  "is_digit c \<longleftrightarrow> c \<in> set ''0123456789''"

text \<open>\<open>str.strip()\<close>: whitespace removed at both ends.\<close>

definition lstrip :: "string \<Rightarrow> string" where
  "lstrip s = dropWhile is_space s"

definition rstrip :: "string \<Rightarrow> string" where
  "rstrip s = rev (dropWhile is_space (rev s))"

definition strip :: "string \<Rightarrow> string" where
  "strip s = rstrip (lstrip s)"

text \<open>\<open>sep.join(xs)\<close>.\<close>

fun join :: "string \<Rightarrow> string list \<Rightarrow> string" where
  "join sep [] = []"
| "join sep [x] = x"
| "join sep (x # y # ys) = x @ sep @ join sep (y # ys)"

text \<open>\<open>str.split()\<close> with no argument: the maximal runs of non-whitespace characters.\<close>

function split_ws :: "string \<Rightarrow> string list" where
  "split_ws s =
     (case dropWhile is_space s of
        [] \<Rightarrow> []
      | c # cs \<Rightarrow> takeWhile (\<lambda>x. \<not> is_space x) (c # cs)
                 # split_ws (dropWhile (\<lambda>x. \<not> is_space x) (c # cs)))"
  by pat_completeness auto
termination
proof (relation "measure length")
  show "wf (measure length)" by simp
next
  fix s :: string and c cs
  assume a: "dropWhile is_space s = c # cs"
  have "\<not> is_space c" using a by (metis hd_dropWhile list.sel(1) list.distinct(1))
  then have "length (dropWhile (\<lambda>x. \<not> is_space x) (c # cs)) \<le> length cs"
    by (simp add: length_dropWhile_le)
  moreover have "length (c # cs) \<le> length s"
    using a by (metis length_dropWhile_le)
  ultimately show "(dropWhile (\<lambda>x. \<not> is_space x) (c # cs), s) \<in> measure length"
    by simp
qed

declare split_ws.simps [simp del]

text \<open>\<open>str(n)\<close> for a non-negative integer: its decimal digits.\<close>

definition digit_char :: "nat \<Rightarrow> char" where
  "digit_char d = ''0123456789'' ! d"

fun str_of_nat :: "nat \<Rightarrow> string" where
  "str_of_nat n = (if n < 10 then [digit_char n] else str_of_nat (n div 10) @ [digit_char (n mod 10)])"

declare str_of_nat.simps [simp del]

section \<open>Remote summarisation: fixed-size chunks\<close>

text \<open>
  \<open>range(0, n, k)\<close> for a positive step: the multiples of \<open>k\<close> below \<open>n\<close>, of which
  there are \<open>n\<close> divided by \<open>k\<close>, rounded up.
\<close>

definition range_step :: "nat \<Rightarrow> nat \<Rightarrow> nat list" where
  "range_step n k = map (\<lambda>j. j * k) [0..<(n + k - 1) div k]"

text \<open>The slice \<open>s[i:j]\<close> for \<open>0 \<le> i \<le> j\<close>; Python clips it at the end of \<open>s\<close>.\<close>

definition slice :: "'a list \<Rightarrow> nat \<Rightarrow> nat \<Rightarrow> 'a list" where
  "slice s i j = take (j - i) (drop i s)"

definition max_chunk_size :: nat where
  "max_chunk_size = 10000"

text \<open>
  The list comprehension of \<open>summarize_with_openai\<close>:
  \<open>[transcript[i:i+max_chunk_size] for i in range(0, len(transcript), max_chunk_size)]\<close>.
\<close>

definition openai_chunks :: "string \<Rightarrow> string list" where
  "openai_chunks transcript =
     map (\<lambda>i. slice transcript i (i + max_chunk_size))
       (range_step (length transcript) max_chunk_size)"


section \<open>Exceptions\<close>

text \<open>An exception that an \<open>except Exception as e\<close> clause catches, with \<open>str(e)\<close>.\<close>

datatype error = Exception string

section \<open>Transcriber (transcription.py)\<close>

text \<open>
  A segment of a transcription response is a dictionary: \<open>seg_speaker\<close> is the value under
  the key \<open>speaker\<close> and \<open>seg_text\<close> the value under \<open>text\<close>, \<open>None\<close> when the key is absent.
\<close>

record segment =
  seg_speaker :: "string option"
  seg_text :: "string option"

text \<open>
  What \<open>openai.audio.transcriptions.create\<close> returns: a dictionary, with or without the keys
  \<open>segments\<close> and \<open>text\<close>, or another object, with or without an attribute \<open>text\<close>.
\<close>

datatype response =
  RespDict "segment list option" "string option"
| RespObject "string option"

text \<open>
  The two speech-to-text services are outside the repository: each is a function from the
  audio path to what the call returns or raises. \<open>whisper_transcribe\<close> gives the
  \<open>segments\<close> of the local model's result (\<open>None\<close> when the result has no such key), each
  segment by the value under its key \<open>text\<close>.
\<close>

record transcriber_env =
  api_key :: bool
  openai_transcribe :: "string \<Rightarrow> error + response"
  whisper_transcribe :: "string \<Rightarrow> error + string option list option"

text \<open>
  The loop over the segments in \<open>transcribe_with_openai\<close>, with its two variables
  \<open>current_speaker\<close> and \<open>formatted\<close>. \<open>segment['text']\<close> raises KeyError on a segment
  without text.
\<close>

fun format_segments :: "string option \<Rightarrow> string \<Rightarrow> segment list \<Rightarrow> error + string" where
  "format_segments current_speaker formatted [] = Inr formatted"
| "format_segments current_speaker formatted (seg # segs) =
     (let speaker = ''Speaker '' @ (case seg_speaker seg of None \<Rightarrow> ''Unknown'' | Some s \<Rightarrow> s) in
      case seg_text seg of
        None \<Rightarrow> Inl (Exception ''KeyError: text'')
      | Some t \<Rightarrow>
          if Some speaker \<noteq> current_speaker
          then format_segments (Some speaker) (formatted @ ''\<newline>'' @ speaker @ '': '' @ t) segs
          else format_segments current_speaker (formatted @ '' '' @ t) segs)"

definition transcribe_with_openai :: "transcriber_env \<Rightarrow> string \<Rightarrow> error + string" where
  "transcribe_with_openai env audio_path =
     (case openai_transcribe env audio_path of
        Inl e \<Rightarrow> Inl e
      | Inr (RespDict (Some segments) txt) \<Rightarrow>
          (case format_segments None [] segments of
             Inl e \<Rightarrow> Inl e
           | Inr formatted \<Rightarrow> Inr (strip formatted))
      | Inr (RespDict None (Some txt)) \<Rightarrow> Inr (''Speaker: '' @ txt)
      | Inr (RespDict None None) \<Rightarrow> Inr ''Unable to transcribe audio with OpenAI API''
      | Inr (RespObject (Some txt)) \<Rightarrow> Inr (''Speaker: '' @ txt)
      | Inr (RespObject None) \<Rightarrow> Inr ''Unable to transcribe audio with OpenAI API'')"

text \<open>
  The loop of \<open>transcribe_with_whisper\<close> with its variables \<open>formatted_transcript\<close> and
  \<open>current_text_chunk\<close>, followed by the flush of the remaining text.
\<close>

fun whisper_blocks :: "string \<Rightarrow> string \<Rightarrow> string option list \<Rightarrow> string" where
  "whisper_blocks formatted_transcript current_text_chunk [] =
     (if current_text_chunk \<noteq> []
      then formatted_transcript @ ''\<newline>Speaker: '' @ current_text_chunk @ ''\<newline>''
      else formatted_transcript)"
| "whisper_blocks formatted_transcript current_text_chunk (seg # segs) =
     (let chunk = current_text_chunk @ (case seg of None \<Rightarrow> [] | Some t \<Rightarrow> t) in
      if length chunk > 200
      then whisper_blocks (formatted_transcript @ ''\<newline>Speaker: '' @ chunk @ ''\<newline>'') [] segs
      else whisper_blocks formatted_transcript chunk segs)"

text \<open>The whole body of \<open>transcribe_with_whisper\<close> is inside \<open>try\<close>.\<close>

definition transcribe_with_whisper :: "transcriber_env \<Rightarrow> string \<Rightarrow> error + string" where
  "transcribe_with_whisper env audio_path =
     (case whisper_transcribe env audio_path of
        Inl (Exception msg) \<Rightarrow> Inr (''Transcription failed: '' @ msg)
      | Inr result \<Rightarrow>
          Inr (strip (whisper_blocks [] [] (case result of None \<Rightarrow> [] | Some segments \<Rightarrow> segments))))"

definition transcribe_audio :: "transcriber_env \<Rightarrow> string \<Rightarrow> error + string" where
  "transcribe_audio env audio_path =
     (if api_key env then
        (case transcribe_with_openai env audio_path of
           Inr transcript \<Rightarrow> Inr transcript
         | Inl e \<Rightarrow> transcribe_with_whisper env audio_path)
      else transcribe_with_whisper env audio_path)"


section \<open>Summarizer (summarization.py)\<close>

lemma length_dropWhile_le_Suc: "length (dropWhile P xs) \<le> Suc (length xs)"
  by (rule le_SucI) (rule length_dropWhile_le)

lemma length_tl_dropWhile_le: "length (tl (dropWhile P xs)) \<le> length xs"
  using length_dropWhile_le [of P xs] by simp

lemma length_dropWhile_minus_le: "length (dropWhile P xs) - Suc 0 \<le> length xs"
  using length_dropWhile_le [of P xs] by simp

subsection \<open>The regular expressions\<close>

text \<open>\<open>re.sub(r'\s+', ' ', s)\<close>: every maximal run of whitespace becomes one space.\<close>

function collapse_ws :: "string \<Rightarrow> string" where
  "collapse_ws [] = []"
| "collapse_ws (c # cs) =
     (if is_space c then CHR '' '' # collapse_ws (dropWhile is_space cs)
      else c # collapse_ws cs)"
  by pat_completeness auto
termination
  by (relation "measure length") (auto simp: length_dropWhile_le le_imp_less_Suc)

text \<open>
  \<open>re.sub(r'\[.*?\]', '', s)\<close>: scanning from the left, an opening bracket together with
  the text up to the first closing bracket after it is removed, if no line feed stands in
  between (the dot matches no line feed); otherwise the opening bracket stays.
\<close>

function remove_brackets :: "string \<Rightarrow> string" where
  "remove_brackets [] = []"
| "remove_brackets (c # cs) =
     (if c = CHR ''[''
         \<and> dropWhile (\<lambda>x. x \<noteq> CHR '']'') cs \<noteq> []
         \<and> CHR 0x0A \<notin> set (takeWhile (\<lambda>x. x \<noteq> CHR '']'') cs)
      then remove_brackets (tl (dropWhile (\<lambda>x. x \<noteq> CHR '']'') cs))
      else c # remove_brackets cs)"
  by pat_completeness auto
termination
proof (relation "measure length")
  show "wf (measure length)" by simp
next
  fix c :: char and cs :: string
  have "length (tl (dropWhile (\<lambda>x. x \<noteq> CHR '']'') cs)) \<le> length cs"
    by (rule length_tl_dropWhile_le)
  then show "c = CHR ''[''
         \<and> dropWhile (\<lambda>x. x \<noteq> CHR '']'') cs \<noteq> []
         \<and> CHR 0x0A \<notin> set (takeWhile (\<lambda>x. x \<noteq> CHR '']'') cs) \<Longrightarrow>
     (tl (dropWhile (\<lambda>x. x \<noteq> CHR '']'') cs), c # cs) \<in> measure length"
    by simp
next
  fix c :: char and cs :: string
  show "\<not> (c = CHR ''[''
         \<and> dropWhile (\<lambda>x. x \<noteq> CHR '']'') cs \<noteq> []
         \<and> CHR 0x0A \<notin> set (takeWhile (\<lambda>x. x \<noteq> CHR '']'') cs)) \<Longrightarrow>
     (cs, c # cs) \<in> measure length"
    by simp
qed

text \<open>
  \<open>re.split(r'(?<=[.!?])\s+', s)\<close>: the text is cut at every maximal run of whitespace
  that follows a full stop, an exclamation mark or a question mark. The first argument
  is the piece read so far.
\<close>

definition is_sentence_end :: "char \<Rightarrow> bool" where
  "is_sentence_end c \<longleftrightarrow> c \<in> {CHR ''.'', CHR ''!'', CHR ''?''}"

function split_sentences_from :: "string \<Rightarrow> string \<Rightarrow> string list" where
  "split_sentences_from piece [] = [piece]"
| "split_sentences_from piece [c] = [piece @ [c]]"
| "split_sentences_from piece (c # d # cs) =
     (if is_sentence_end c \<and> is_space d
      then (piece @ [c]) # split_sentences_from [] (dropWhile is_space cs)
      else split_sentences_from (piece @ [c]) (d # cs))"
  by pat_completeness auto
termination
  by (relation "measure (\<lambda>(piece, s). length s)")
     (auto simp: less_Suc_eq_le intro: le_SucI length_dropWhile_le)

definition split_sentences :: "string \<Rightarrow> string list" where
  "split_sentences s = split_sentences_from [] s"

text \<open>
  \<open>re.findall(r'(Speaker [^:]+):', s)\<close>: scanning from the left, at the word
  \<open>Speaker\<close> and a space the match takes every character up to the next colon (at
  least one, and the colon must exist) and the search goes on behind that colon.
\<close>

function find_speakers :: "string \<Rightarrow> string list" where
  "find_speakers [] = []"
| "find_speakers (c # cs) =
     (if take 8 (c # cs) = ''Speaker ''
         \<and> takeWhile (\<lambda>x. x \<noteq> CHR '':'') (drop 8 (c # cs)) \<noteq> []
         \<and> dropWhile (\<lambda>x. x \<noteq> CHR '':'') (drop 8 (c # cs)) \<noteq> []
      then (''Speaker '' @ takeWhile (\<lambda>x. x \<noteq> CHR '':'') (drop 8 (c # cs)))
             # find_speakers (tl (dropWhile (\<lambda>x. x \<noteq> CHR '':'') (drop 8 (c # cs))))
      else find_speakers cs)"
  by pat_completeness auto
termination
proof (relation "measure length")
  show "wf (measure length)" by simp
next
  fix c :: char and cs :: string
  have "length (dropWhile (\<lambda>x. x \<noteq> CHR '':'') (drop 8 (c # cs))) \<le> length (drop 8 (c # cs))"
    by (rule length_dropWhile_le)
  then have "length (tl (dropWhile (\<lambda>x. x \<noteq> CHR '':'') (drop 8 (c # cs)))) \<le> length cs"
    by simp
  then show "(tl (dropWhile (\<lambda>x. x \<noteq> CHR '':'') (drop 8 (c # cs))), c # cs) \<in> measure length"
    by simp
next
  fix c :: char and cs :: string
  show "(cs, c # cs) \<in> measure length" by simp
qed

subsection \<open>The functions\<close>

definition clean_transcript :: "string \<Rightarrow> string" where
  "clean_transcript transcript = strip (remove_brackets (collapse_ws transcript))"

text \<open>\<open>chunk_text\<close>: the loop over the words, with \<open>chunks\<close>, \<open>current_chunk\<close> and \<open>current_length\<close>.\<close>

fun chunk_words :: "nat \<Rightarrow> string list \<Rightarrow> string list \<Rightarrow> nat \<Rightarrow> string list \<Rightarrow> string list" where
  "chunk_words max_length chunks current_chunk current_length [] =
     (if current_chunk \<noteq> [] then chunks @ [join '' '' current_chunk] else chunks)"
| "chunk_words max_length chunks current_chunk current_length (word # words) =
     (if current_length + length word + 1 > max_length
      then chunk_words max_length (chunks @ [join '' '' current_chunk]) [word] (length word) words
      else chunk_words max_length chunks (current_chunk @ [word])
             (current_length + (length word + 1)) words)"

definition chunk_text :: "string \<Rightarrow> nat \<Rightarrow> string list" where
  "chunk_text txt max_length = chunk_words max_length [] [] 0 (split_ws txt)"

text \<open>
  \<open>simple_extractive_summary\<close>. The slices \<open>sentences[:3]\<close>,
  \<open>sentences[mid_point:mid_point+2]\<close> and \<open>sentences[-3:]\<close> are \<open>take\<close> and \<open>drop\<close>;
  only the size of the set of speakers is used.
\<close>

definition simple_extractive_summary :: "string \<Rightarrow> string" where
  "simple_extractive_summary transcript =
     (let sentences = split_sentences transcript;
          speaker_turns = find_speakers transcript;
          unique_speakers = set speaker_turns;
          mid_point = length sentences div 2;
          selected_sentences =
            take 3 sentences
            @ slice sentences mid_point (mid_point + 2)
            @ drop (length sentences - 3) sentences
      in ''## Meeting Summary\<newline>\<newline>''
         @ join '' '' selected_sentences @ ''\<newline>\<newline>''
         @ ''## Key Points\<newline>\<newline>''
         @ ''- Meeting included '' @ str_of_nat (card unique_speakers) @ '' participants\<newline>''
         @ ''- The transcript contains '' @ str_of_nat (length sentences) @ '' sentences\<newline>''
         @ ''- Total of '' @ str_of_nat (length speaker_turns) @ '' speaker changes occurred\<newline>'')"


text \<open>
  The services outside the repository: \<open>chat system user\<close> is the content of the first
  choice of \<open>openai.chat.completions.create\<close> for the two messages, or what the call
  raises; \<open>pipeline\<close> is the summarizer that \<open>transformers.pipeline\<close> builds, or what
  building it raises, and the summarizer gives the \<open>summary_text\<close> for a chunk or raises.
\<close>

record summarizer_env =
  summary_api_key :: bool
  chat :: "string \<Rightarrow> string \<Rightarrow> error + string"
  has_transformers :: bool
  pipeline :: "error + (string \<Rightarrow> error + string)"

definition system_prompt :: string where
  "system_prompt =
     ''You are a professional meeting summarizer. ''
     @ ''Summarize the provided meeting transcript into a concise, structured summary ''
     @ ''that captures the key points of the discussion. ''
     @ ''Include a 'Key Points' section that extracts the most important takeaways.''"

text \<open>The loop over the chunks in \<open>summarize_with_openai\<close>; a call that raises ends it.\<close>

fun summarize_chunks :: "summarizer_env \<Rightarrow> string list \<Rightarrow> string list \<Rightarrow> error + string list" where
  "summarize_chunks env chunk_summaries [] = Inr chunk_summaries"
| "summarize_chunks env chunk_summaries (chunk # chunks) =
     (case chat env system_prompt (''Summarize this part of the transcript: '' @ chunk) of
        Inl e \<Rightarrow> Inl e
      | Inr content \<Rightarrow> summarize_chunks env (chunk_summaries @ [content]) chunks)"

definition summarize_with_openai :: "summarizer_env \<Rightarrow> string \<Rightarrow> error + string" where
  "summarize_with_openai env transcript =
     (if length transcript > max_chunk_size then
        (case summarize_chunks env [] (openai_chunks transcript) of
           Inl e \<Rightarrow> Inl e
         | Inr chunk_summaries \<Rightarrow>
             chat env system_prompt
               (''Create a final summary combining these partial summaries: ''
                @ join '' '' chunk_summaries))
      else chat env system_prompt (''Summarize this meeting transcript: '' @ transcript))"

text \<open>The loop over the chunks in \<open>summarize_with_transformers\<close>; a chunk that raises is skipped.\<close>

fun summarize_local_chunks :: "(string \<Rightarrow> error + string) \<Rightarrow> string list \<Rightarrow> string list" where
  "summarize_local_chunks summarizer [] = []"
| "summarize_local_chunks summarizer (chunk # chunks) =
     (case summarizer chunk of
        Inl e \<Rightarrow> summarize_local_chunks summarizer chunks
      | Inr summary \<Rightarrow> summary # summarize_local_chunks summarizer chunks)"

definition summarize_with_transformers :: "summarizer_env \<Rightarrow> string \<Rightarrow> error + string" where
  "summarize_with_transformers env transcript =
     (case pipeline env of
        Inl e \<Rightarrow> Inl e
      | Inr summarizer \<Rightarrow>
          (let chunks = chunk_text transcript 1000;
               chunk_summaries = summarize_local_chunks summarizer chunks;
               combined_summary = join '' '' chunk_summaries;
               sentences = split_sentences combined_summary
           in Inr (''## Meeting Summary\<newline>\<newline>''
                   @ combined_summary @ ''\<newline>\<newline>''
                   @ ''## Key Points\<newline>\<newline>''
                   @ concat (map (\<lambda>sentence. ''- '' @ sentence @ ''\<newline>'')
                       (filter (\<lambda>sentence. length sentence > 10) (take 5 sentences))))))"

definition generate_summary :: "summarizer_env \<Rightarrow> string \<Rightarrow> error + string" where
  "generate_summary env transcript =
     (let cleaned_transcript = clean_transcript transcript;
          fallback =
            (if has_transformers env then summarize_with_transformers env cleaned_transcript
             else Inr (simple_extractive_summary cleaned_transcript))
      in if summary_api_key env then
           (case summarize_with_openai env cleaned_transcript of
              Inr summary \<Rightarrow> Inr summary
            | Inl e \<Rightarrow> fallback)
         else fallback)"

section \<open>Title Suggester (title_generation.py)\<close>

text \<open>\<open>s.split('\n')\<close>: the pieces between the separators; the first argument is the piece read so far.\<close>

fun split_on_from :: "char \<Rightarrow> string \<Rightarrow> string \<Rightarrow> string list" where
  "split_on_from sep piece [] = [piece]"
| "split_on_from sep piece (c # cs) =
     (if c = sep then piece # split_on_from sep [] cs
      else split_on_from sep (piece @ [c]) cs)"

definition split_on :: "char \<Rightarrow> string \<Rightarrow> string list" where
  "split_on sep s = split_on_from sep [] s"

text \<open>
  The class \<open>[\d\.\-\*\s]\<close> of the title parser together with its three bullet glyphs,
  which are outside the modelled characters.
\<close>

definition is_list_markup :: "char \<Rightarrow> bool" where
  "is_list_markup c \<longleftrightarrow> is_digit c \<or> c \<in> {CHR ''.'', CHR ''-'', CHR ''*''} \<or> is_space c"

text \<open>The \<open>while\<close> loop that pads the titles with placeholders.\<close>

function pad_titles :: "string list \<Rightarrow> string list" where
  "pad_titles titles =
     (if length titles < 3
      then pad_titles (titles @ [''Meeting Summary '' @ str_of_nat (length titles + 1)])
      else titles)"
  by pat_completeness auto
termination
  by (relation "measure (\<lambda>titles. 3 - length titles)") auto

declare pad_titles.simps [simp del]

text \<open>
  \<open>title_chat system user\<close> is the chat completion as above; \<open>shuffle\<close> is the order that
  \<open>random.shuffle\<close> leaves the list in; \<open>capitalize\<close> is \<open>str.capitalize\<close>, whose result
  can lie outside the modelled characters.
\<close>

record title_env =
  title_api_key :: bool
  title_chat :: "string \<Rightarrow> string \<Rightarrow> error + string"
  shuffle :: "string list \<Rightarrow> string list"
  capitalize :: "string \<Rightarrow> string"

definition generate_titles_with_openai :: "title_env \<Rightarrow> string \<Rightarrow> error + string list" where
  "generate_titles_with_openai env summary =
     (let prompt =
            ''Below is a summary of a meeting or call. ''
            @ ''Generate 3 concise, professional titles for this meeting. ''
            @ ''Each title should be less than 8 words, capture the main topic, ''
            @ ''and be formatted for business context.\<newline>\<newline>''
            @ ''Summary:\<newline>'' @ summary @ ''\<newline>\<newline>''
            @ ''Titles:''
      in case title_chat env ''You are a professional title generator for business meetings.'' prompt of
           Inl e \<Rightarrow> Inl e
         | Inr content \<Rightarrow>
             (let lines = split_on CHR 0x0A (strip content);
                  titles =
                    filter (\<lambda>clean_line. clean_line \<noteq> [] \<and> length clean_line < 60)
                      (map (\<lambda>line. strip (dropWhile is_list_markup line)) lines)
              in Inr (take 3 (pad_titles titles))))"


text \<open>\<open>sub in s\<close> for strings.\<close>

fun contains :: "string \<Rightarrow> string \<Rightarrow> bool" where
  "contains sub [] \<longleftrightarrow> sub = []"
| "contains sub (c # cs) \<longleftrightarrow> take (length sub) (c # cs) = sub \<or> contains sub cs"

text \<open>
  \<open>template.format(**kwargs)\<close> for a template whose replacement fields are plain names
  in braces, as all templates of the pool are: a field is replaced by the keyword
  argument of its name (KeyError when there is none); a brace that opens no field or
  closes none is a ValueError.
\<close>

function str_format :: "string \<Rightarrow> (string \<times> string) list \<Rightarrow> error + string" where
  "str_format [] kwargs = Inr []"
| "str_format (c # cs) kwargs =
     (if c = CHR ''{'' then
        (if dropWhile (\<lambda>x. x \<noteq> CHR ''}'') cs = [] then Inl (Exception ''ValueError'')
         else
           (case map_of kwargs (takeWhile (\<lambda>x. x \<noteq> CHR ''}'') cs) of
              None \<Rightarrow> Inl (Exception ''KeyError'')
            | Some v \<Rightarrow>
                (case str_format (tl (dropWhile (\<lambda>x. x \<noteq> CHR ''}'') cs)) kwargs of
                   Inl e \<Rightarrow> Inl e
                 | Inr r \<Rightarrow> Inr (v @ r))))
      else if c = CHR ''}'' then Inl (Exception ''ValueError'')
      else (case str_format cs kwargs of Inl e \<Rightarrow> Inl e | Inr r \<Rightarrow> Inr (c # r)))"
  by pat_completeness auto
termination
  by (relation "measure (\<lambda>(s, kwargs). length s)")
     (auto simp: less_Suc_eq_le length_dropWhile_minus_le)

text \<open>\<open>xs[i]\<close> for \<open>i \<ge> 0\<close>: IndexError out of range.\<close>

definition get_item :: "'a list \<Rightarrow> nat \<Rightarrow> error + 'a" where
  "get_item xs i = (if i < length xs then Inr (xs ! i) else Inl (Exception ''IndexError''))"

text \<open>
  \<open>str.lower\<close> on one character: the capital letters A to Z and those of Latin-1 (0xC0 to
  0xDE without the multiplication sign 0xD7) move up by 32.
\<close>

definition lower_char :: "char \<Rightarrow> char" where
  "lower_char c =
     (let n = of_char c :: nat in
      if (65 \<le> n \<and> n \<le> 90) \<or> (192 \<le> n \<and> n \<le> 222 \<and> n \<noteq> 215)
      then char_of (n + 32) else c)"

definition lower :: "string \<Rightarrow> string" where
  "lower s = map lower_char s"

text \<open>
  \<open>re.sub(r'#+\s+', '', s)\<close>: a run of hash signs is removed together with the whitespace
  behind it; a hash sign whose run is not followed by whitespace stays.
\<close>

function strip_headings :: "string \<Rightarrow> string" where
  "strip_headings [] = []"
| "strip_headings (c # cs) =
     (if c = CHR ''#''
         \<and> takeWhile is_space (dropWhile (\<lambda>x. x = CHR ''#'') cs) \<noteq> []
      then strip_headings (dropWhile is_space (dropWhile (\<lambda>x. x = CHR ''#'') cs))
      else c # strip_headings cs)"
  by pat_completeness auto
termination
proof (relation "measure length")
  show "wf (measure length)" by simp
next
  fix c :: char and cs :: string
  have "length (dropWhile is_space (dropWhile (\<lambda>x. x = CHR ''#'') cs))
          \<le> length (dropWhile (\<lambda>x. x = CHR ''#'') cs)"
    by (rule length_dropWhile_le)
  also have "\<dots> \<le> length cs"
    by (rule length_dropWhile_le)
  finally show "(dropWhile is_space (dropWhile (\<lambda>x. x = CHR ''#'') cs), c # cs) \<in> measure length"
    by simp
next
  fix c :: char and cs :: string
  show "(cs, c # cs) \<in> measure length" by simp
qed

text \<open>\<open>re.sub(r'\n+', ' ', s)\<close>: every run of line feeds becomes one space.\<close>

function collapse_newlines :: "string \<Rightarrow> string" where
  "collapse_newlines [] = []"
| "collapse_newlines (c # cs) =
     (if c = CHR 0x0A then CHR '' '' # collapse_newlines (dropWhile (\<lambda>x. x = CHR 0x0A) cs)
      else c # collapse_newlines cs)"
  by pat_completeness auto
termination
  by (relation "measure length") (auto simp: less_Suc_eq_le length_dropWhile_le)

definition stop_words :: "string set" where
  "stop_words = set [''the'', ''and'', ''a'', ''an'', ''in'', ''on'', ''at'', ''to'', ''for'', ''with'',
     ''by'', ''of'', ''is'', ''was'', ''were'', ''be'', ''as'', ''that'', ''this'',
     ''key'', ''point'', ''points'', ''meeting'', ''summary'']"

text \<open>
  The dictionary \<open>word_counts\<close> keeps its keys in the order of their insertion, which
  \<open>items()\<close> follows: it is a list of pairs, a new word going to its end.
\<close>

fun count_word :: "(string \<times> nat) list \<Rightarrow> string \<Rightarrow> (string \<times> nat) list" where
  "count_word [] word = [(word, 0 + 1)]"
| "count_word ((k, n) # kvs) word =
     (if k = word then (k, n + 1) # kvs else (k, n) # count_word kvs word)"

text \<open>The words of the summary that pass the filter, in their order.\<close>

definition filtered_words :: "string \<Rightarrow> string list" where
  "filtered_words summary =
     (let txt = strip_headings summary;
          txt = collapse_newlines txt;
          words = split_ws (lower txt)
      in filter (\<lambda>word. word \<notin> stop_words \<and> length word > 3) words)"

text \<open>
  \<open>sorted(items, key=lambda x: x[1], reverse=True)\<close> is a stable sort by falling count:
  \<open>sort_key\<close> is stable and sorts by rising key, here the negated count.
\<close>

definition extract_key_topics :: "string \<Rightarrow> string list" where
  "extract_key_topics summary =
     (let word_counts = foldl count_word [] (filtered_words summary);
          sorted_words = sort_key (\<lambda>x. - int (snd x)) word_counts;
          topics = map fst (take 5 sorted_words)
      in if topics = [] then [''Business'', ''Meeting'', ''Discussion''] else topics)"

definition templates :: "string list" where
  "templates =
     [''{topic1} Discussion Summary'',
      ''{topic1} and {topic2} Planning'',
      ''Meeting Notes: {topic1} Review'',
      ''{topic1} Strategy Session'',
      ''Quarterly {topic1} Update'',
      ''{topic1}: Analysis & Next Steps'',
      ''{topic1} Implementation Plan'',
      ''{topic1} and {topic2} Collaboration'']"

text \<open>One turn of the loop over the three templates: the arguments are evaluated, then the template is filled.\<close>

definition render_title :: "(string \<Rightarrow> string) \<Rightarrow> string list \<Rightarrow> string \<Rightarrow> error + string" where
  "render_title cap topics template =
     (if contains ''{topic1}'' template \<and> contains ''{topic2}'' template then
        (case get_item topics 0 of
           Inl e \<Rightarrow> Inl e
         | Inr t1 \<Rightarrow>
             (case get_item topics 1 of
                Inl e \<Rightarrow> Inl e
              | Inr t2 \<Rightarrow> str_format template [(''topic1'', cap t1), (''topic2'', cap t2)]))
      else
        (case get_item topics 0 of
           Inl e \<Rightarrow> Inl e
         | Inr t1 \<Rightarrow> str_format template [(''topic1'', cap t1)]))"

fun render_titles :: "(string \<Rightarrow> string) \<Rightarrow> string list \<Rightarrow> string list \<Rightarrow> error + string list" where
  "render_titles cap topics [] = Inr []"
| "render_titles cap topics (template # rest) =
     (case render_title cap topics template of
        Inl e \<Rightarrow> Inl e
      | Inr title \<Rightarrow>
          (case render_titles cap topics rest of
             Inl e \<Rightarrow> Inl e
           | Inr titles \<Rightarrow> Inr (title # titles)))"

definition generate_titles_rule_based :: "title_env \<Rightarrow> string \<Rightarrow> error + string list" where
  "generate_titles_rule_based env summary =
     (let topics = extract_key_topics summary;
          topics = (if length topics < 2 then topics @ [''Discussion'', ''Planning'', ''Review''] else topics)
      in render_titles (capitalize env) topics (take 3 (shuffle env templates)))"

definition generate_titles :: "title_env \<Rightarrow> string \<Rightarrow> error + string list" where
  "generate_titles env summary =
     (if title_api_key env then
        (case generate_titles_with_openai env summary of
           Inr titles \<Rightarrow> Inr titles
         | Inl e \<Rightarrow> generate_titles_rule_based env summary)
      else generate_titles_rule_based env summary)"

section \<open>Speaker turns, as the specification describes them\<close>

text \<open>
  The turns of a list of tagged segments (speaker tag, text) in the words of the
  specification: adjacent segments of the same speaker are merged into one turn, whose
  text is their texts joined by a space; a new turn starts where the speaker tag changes.
\<close>

fun spec_turns :: "(string \<times> string) list \<Rightarrow> (string \<times> string) list" where
  "spec_turns [] = []"
| "spec_turns [(s, t)] = [(s, t)]"
| "spec_turns ((s, t) # (s', t') # rest) =
     (if s = s' then spec_turns ((s, t @ '' '' @ t') # rest)
      else (s, t) # spec_turns ((s', t') # rest))"

text \<open>The header and text of a turn as a line of the transcript.\<close>

definition turn_line :: "string \<times> string \<Rightarrow> string" where
  "turn_line turn = ''\<newline>Speaker '' @ fst turn @ '': '' @ snd turn"

text \<open>A segment that carries a speaker tag and a text.\<close>

definition tagged :: "string \<times> string \<Rightarrow> segment" where
  "tagged p = \<lparr>seg_speaker = Some (fst p), seg_text = Some (snd p)\<rparr>"

section \<open>Predicates on strings and lists\<close>



text \<open>A word: a non-empty string without whitespace.\<close>

definition is_word :: "string \<Rightarrow> bool" where
  "is_word w \<longleftrightarrow> w \<noteq> [] \<and> (\<forall>c \<in> set w. \<not> is_space c)"


section \<open>Example inputs and environments\<close>

text \<open>An environment whose remote service answers with three tagged segments.\<close>

definition example_env :: transcriber_env where
  "example_env = \<lparr>api_key = True,
     openai_transcribe = (\<lambda>p. Inr (RespDict (Some (map tagged [(''A'', ''hi''), (''A'', ''there''), (''B'', ''hey'')])) None)),
     whisper_transcribe = (\<lambda>p. Inl (Exception ''no model''))\<rparr>"

text \<open>No credential, and a local model that hears nothing: its result has no segments.\<close>

definition silent_env :: transcriber_env where
  "silent_env = \<lparr>api_key = False,
     openai_transcribe = (\<lambda>p. Inl (Exception ''no credential'')),
     whisper_transcribe = (\<lambda>p. Inr (Some []))\<rparr>"

text \<open>Both services fail.\<close>

definition failing_env :: transcriber_env where
  "failing_env = \<lparr>api_key = True,
     openai_transcribe = (\<lambda>p. Inl (Exception ''connection refused'')),
     whisper_transcribe = (\<lambda>p. Inl (Exception ''cannot load audio''))\<rparr>"

text \<open>The transcript of the end-to-end scenario of the specification.\<close>

definition example_transcript :: string where
  "example_transcript = ''Speaker A: Hello. Speaker B: Let's discuss budget. Speaker A: Agreed.''"

text \<open>No credential and no local model library: the rule-based path.\<close>

definition offline_env :: summarizer_env where
  "offline_env = \<lparr>summary_api_key = False,
     chat = (\<lambda>system user. Inl (Exception ''no credential'')),
     has_transformers = False,
     pipeline = Inl (Exception ''No module named transformers'')\<rparr>"

text \<open>The same path, with services that would answer if they were asked.\<close>

definition idle_env :: summarizer_env where
  "idle_env = \<lparr>summary_api_key = False,
     chat = (\<lambda>system user. Inr ''A summary.''),
     has_transformers = False,
     pipeline = Inr (\<lambda>chunk. Inr ''A summary.'')\<rparr>"

text \<open>A credential, and a remote service that answers every request with two letters.\<close>

definition remote_env :: summarizer_env where
  "remote_env = \<lparr>summary_api_key = True,
     chat = (\<lambda>system user. Inr ''ok''),
     has_transformers = False,
     pipeline = Inl (Exception ''No module named transformers'')\<rparr>"

text \<open>No credential, the local model library installed, and a model that cannot be loaded.\<close>

definition broken_local_env :: summarizer_env where
  "broken_local_env = \<lparr>summary_api_key = False,
     chat = (\<lambda>system user. Inl (Exception ''no credential'')),
     has_transformers = True,
     pipeline = Inl (Exception ''cannot load facebook/bart-large-cnn'')\<rparr>"

text \<open>The summary of the topic-extraction example of the specification.\<close>

definition example_summary_text :: string where
  "example_summary_text = ''## Meeting Summary\<newline>\<newline>Budget budget budget planning planning review''"

text \<open>\<open>str.capitalize\<close> on a word of ASCII letters: the first letter upper case, the rest lower case.\<close>

definition capitalize_ascii :: "string \<Rightarrow> string" where
  "capitalize_ascii s =
     (case s of
        [] \<Rightarrow> []
      | c # cs \<Rightarrow>
          (if of_char c \<in> {97..122::nat} then char_of (of_char c - 32 :: nat) else c) # lower cs)"

text \<open>
  A credential and a remote service that answers with one numbered title and one line
  that is too long; a shuffle that reverses the list.
\<close>

definition remote_title_env :: title_env where
  "remote_title_env = \<lparr>title_api_key = True,
     title_chat = (\<lambda>system user. Inr (''1. Budget Review\<newline>- '' @ ''xxxxxxxxxxxxxxxxxxxxxxxxxxxxxxxxxxxxxxxxxxxxxxxxxxxxxxxxxxxx'' @ ''\<newline>'')),
     shuffle = rev,
     capitalize = capitalize_ascii\<rparr>"

text \<open>A credential, a remote service that fails, and a shuffle that reverses the list.\<close>

definition fallback_title_env :: title_env where
  "fallback_title_env = \<lparr>title_api_key = True,
     title_chat = (\<lambda>system user. Inl (Exception ''rate limit'')),
     shuffle = rev,
     capitalize = capitalize_ascii\<rparr>"

section \<open>Basic facts about strings\<close>






lemma split_ws_Nil: "split_ws [] = []"
  by (simp add: split_ws.simps)

lemma split_ws_unfold_Nil: "dropWhile is_space s = [] \<Longrightarrow> split_ws s = []"
  by (subst split_ws.simps) (simp only: list.case)

lemma split_ws_unfold_Cons:
  "dropWhile is_space s = c # cs \<Longrightarrow>
   split_ws s = takeWhile (\<lambda>x. \<not> is_space x) (c # cs)
                  # split_ws (dropWhile (\<lambda>x. \<not> is_space x) (c # cs))"
  by (subst split_ws.simps) (simp only: list.case)

lemma split_ws_space: "is_space c \<Longrightarrow> split_ws (c # s) = split_ws s"
  by (simp add: split_ws.simps [of "c # s"] split_ws.simps [of s])

lemma split_ws_word:
  assumes "is_word w" and "s = [] \<or> is_space (hd s)"
  shows "split_ws (w @ s) = w # split_ws s"
proof -
  obtain x xs where w: "w = x # xs" using assms(1) by (cases w) (auto simp: is_word_def)
  have nw: "\<forall>c \<in> set w. \<not> is_space c" using assms(1) by (simp add: is_word_def)
  have d: "dropWhile is_space (w @ s) = x # (xs @ s)" using w nw by simp
  have t: "takeWhile (\<lambda>c. \<not> is_space c) (w @ s) = w"
  proof (cases s)
    case Nil
    then show ?thesis using nw by simp
  next
    case (Cons y ys)
    then have "is_space y" using assms(2) by simp
    then show ?thesis using nw Cons by (simp add: takeWhile_append2)
  qed
  have r: "dropWhile (\<lambda>c. \<not> is_space c) (w @ s) = s"
  proof (cases s)
    case Nil
    then show ?thesis using nw by simp
  next
    case (Cons y ys)
    then have "is_space y" using assms(2) by simp
    then show ?thesis using nw Cons by (simp add: dropWhile_append2)
  qed
  have "split_ws (w @ s) = takeWhile (\<lambda>x. \<not> is_space x) (x # (xs @ s))
                  # split_ws (dropWhile (\<lambda>x. \<not> is_space x) (x # (xs @ s)))"
    using d by (rule split_ws_unfold_Cons)
  moreover have "x # (xs @ s) = w @ s" using w by simp
  ultimately show ?thesis using t r by simp
qed

lemma split_ws_words: "w \<in> set (split_ws s) \<Longrightarrow> is_word w"
proof (induction s rule: split_ws.induct)
  case (1 s)
  show ?case
  proof (cases "dropWhile is_space s")
    case Nil
    then have "split_ws s = []" by (rule split_ws_unfold_Nil)
    with 1 show ?thesis by simp
  next
    case (Cons c cs)
    let ?w = "takeWhile (\<lambda>x. \<not> is_space x) (c # cs)"
    have nc: "\<not> is_space c" using Cons hd_dropWhile [of is_space s] by (metis list.distinct(1) list.sel(1))
    have "split_ws s = ?w # split_ws (dropWhile (\<lambda>x. \<not> is_space x) (c # cs))"
      using Cons by (rule split_ws_unfold_Cons)
    then consider "w = ?w" | "w \<in> set (split_ws (dropWhile (\<lambda>x. \<not> is_space x) (c # cs)))"
      using 1(2) by auto
    then show ?thesis
    proof cases
      case 1
      have "?w \<noteq> []" using nc by simp
      moreover have "\<forall>x \<in> set ?w. \<not> is_space x"
      proof
        fix x assume "x \<in> set ?w"
        then show "\<not> is_space x" by (rule set_takeWhileD [THEN conjunct2])
      qed
      ultimately show ?thesis unfolding 1 is_word_def by (rule conjI)
    next
      case 2
      then show ?thesis using "1.IH" Cons by blast
    qed
  qed
qed

lemma split_ws_join:
  "\<forall>w \<in> set ws. is_word w \<Longrightarrow> split_ws (join '' '' ws) = ws"
proof (induction "'' ''" ws rule: join.induct)
  case 1
  show ?case by (simp add: split_ws_Nil)
next
  case (2 x)
  then have "is_word x" by simp
  then have "split_ws (x @ []) = x # split_ws []" by (rule split_ws_word) simp
  then show ?case by (simp add: split_ws_Nil)
next
  case (3 x y ys)
  then have x: "is_word x" and ih: "split_ws (join '' '' (y # ys)) = y # ys" by simp_all
  have "split_ws (x @ CHR '' '' # join '' '' (y # ys)) = x # split_ws (CHR '' '' # join '' '' (y # ys))"
    using x by (rule split_ws_word) (simp add: is_space_def)
  also have "split_ws (CHR '' '' # join '' '' (y # ys)) = split_ws (join '' '' (y # ys))"
    by (rule split_ws_space) (simp add: is_space_def)
  finally show ?case using ih by simp
qed

lemma length_join_snoc:
  "length (join sep (xs @ [w]))
     = (if xs = [] then length w else length (join sep xs) + length sep + length w)"
  by (induction sep xs rule: join.induct) auto

lemma strip_eq_Nil_iff: "strip s = [] \<longleftrightarrow> (\<forall>c \<in> set s. is_space c)"
proof -
  define u where "u = dropWhile is_space s"
  have "strip s = [] \<longleftrightarrow> dropWhile is_space (rev u) = []"
    by (simp add: strip_def lstrip_def rstrip_def u_def)
  also have "\<dots> \<longleftrightarrow> (\<forall>c \<in> set u. is_space c)" by simp
  also have "\<dots> \<longleftrightarrow> u = []"
  proof
    assume a: "\<forall>c \<in> set u. is_space c"
    show "u = []"
    proof (rule ccontr)
      assume "u \<noteq> []"
      then have "\<not> is_space (hd u)" unfolding u_def by (rule hd_dropWhile)
      moreover have "hd u \<in> set u" using \<open>u \<noteq> []\<close> by simp
      ultimately show False using a by blast
    qed
  next
    assume "u = []"
    then show "\<forall>c \<in> set u. is_space c" by simp
  qed
  also have "\<dots> \<longleftrightarrow> (\<forall>c \<in> set s. is_space c)" by (simp add: u_def)
  finally show ?thesis .
qed

section \<open>Properties of the Transcriber\<close>

lemma format_segments_turns:
  "format_segments (Some (''Speaker '' @ s)) (acc @ turn_line (s, t)) (map tagged ps)
     = Inr (acc @ concat (map turn_line (spec_turns ((s, t) # ps))))"
proof (induction ps arbitrary: s t acc)
  case Nil
  show ?case by simp
next
  case (Cons p ps)
  obtain s' t' where p: "p = (s', t')" by (cases p)
  show ?case
  proof (cases "s' = s")
    case True
    have "acc @ turn_line (s, t) @ '' '' @ t' = acc @ turn_line (s, t @ '' '' @ t')"
      by (simp add: turn_line_def)
    then show ?thesis
      using Cons.IH [of s acc "t @ '' '' @ t'"] True p
      by (simp add: tagged_def)
  next
    case False
    have "acc @ turn_line (s, t) @ ''\<newline>'' @ (''Speaker '' @ s') @ '': '' @ t'
            = (acc @ turn_line (s, t)) @ turn_line (s', t')"
      by (simp add: turn_line_def)
    then show ?thesis
      using Cons.IH [of s' "acc @ turn_line (s, t)" t'] False p
      by (simp add: tagged_def)
  qed
qed

lemma format_segments_tagged:
  "format_segments None [] (map tagged ps) = Inr (concat (map turn_line (spec_turns ps)))"
proof (cases ps)
  case Nil
  then show ?thesis by simp
next
  case (Cons p ps')
  obtain s t where p: "p = (s, t)" by (cases p)
  have "[] @ ''\<newline>'' @ (''Speaker '' @ s) @ '': '' @ t = [] @ turn_line (s, t)"
    by (simp add: turn_line_def)
  then show ?thesis
    using format_segments_turns [of s "[]" t ps'] Cons p
    by (simp add: tagged_def)
qed

lemma spec_turns_hd:
  "ps \<noteq> [] \<Longrightarrow> spec_turns ps \<noteq> [] \<and> fst (hd (spec_turns ps)) = fst (hd ps)"
  by (induction ps rule: spec_turns.induct) auto

lemma spec_turns_distinct_adj: "distinct_adj (map fst (spec_turns ps))"
proof (induction ps rule: spec_turns.induct)
  case 1
  show ?case by simp
next
  case (2 s t)
  show ?case by simp
next
  case (3 s t s' t' rest)
  show ?case
  proof (cases "s = s'")
    case True
    with 3 show ?thesis by simp
  next
    case False
    have "spec_turns ((s', t') # rest) \<noteq> [] \<and> fst (hd (spec_turns ((s', t') # rest))) = s'"
      using spec_turns_hd [of "(s', t') # rest"] by simp
    then show ?thesis
      using 3 False by (cases "spec_turns ((s', t') # rest)") (auto simp: distinct_adj_Cons)
  qed
qed

text \<open>
  Claim C4. When the remote response holds segments with speaker tags, the transcript is
  the stripped concatenation of one line per turn of the specification: a header appears
  only where the speaker tag changes, adjacent segments of one speaker share a turn, and no
  two consecutive turns have the same speaker. For the segments (A, hi), (A, there),
  (B, hey) there are exactly 2 turns, the first with the text "hi there".
\<close>

theorem turn_merging:
  "openai_transcribe env audio_path = Inr (RespDict (Some (map tagged ps)) txt) \<longrightarrow>
     transcribe_with_openai env audio_path = Inr (strip (concat (map turn_line (spec_turns ps))))
     \<and> distinct_adj (map fst (spec_turns ps))
     \<and> (ps = [(''A'', ''hi''), (''A'', ''there''), (''B'', ''hey'')] \<longrightarrow>
          spec_turns ps = [(''A'', ''hi there''), (''B'', ''hey'')]
          \<and> transcribe_with_openai env audio_path = Inr ''Speaker A: hi there\<newline>Speaker B: hey'')"
proof (intro impI conjI)
  assume r: "openai_transcribe env audio_path = Inr (RespDict (Some (map tagged ps)) txt)"
  show g: "transcribe_with_openai env audio_path = Inr (strip (concat (map turn_line (spec_turns ps))))"
    using r by (simp add: transcribe_with_openai_def format_segments_tagged)
  show "distinct_adj (map fst (spec_turns ps))" by (rule spec_turns_distinct_adj)
  assume ps: "ps = [(''A'', ''hi''), (''A'', ''there''), (''B'', ''hey'')]"
  show t: "spec_turns ps = [(''A'', ''hi there''), (''B'', ''hey'')]"
    unfolding ps by simp
  show "transcribe_with_openai env audio_path = Inr ''Speaker A: hi there\<newline>Speaker B: hey''"
    unfolding g t by (simp add: turn_line_def strip_def lstrip_def rstrip_def is_space_def)
qed

theorem turn_merging_witness:
  "openai_transcribe example_env ''call.wav''
     = Inr (RespDict (Some (map tagged [(''A'', ''hi''), (''A'', ''there''), (''B'', ''hey'')])) None)
   \<and> transcribe_with_openai example_env ''call.wav'' = Inr ''Speaker A: hi there\<newline>Speaker B: hey''
   \<and> transcribe_audio example_env ''call.wav'' = Inr ''Speaker A: hi there\<newline>Speaker B: hey''"
proof -
  have r: "openai_transcribe example_env ''call.wav''
     = Inr (RespDict (Some (map tagged [(''A'', ''hi''), (''A'', ''there''), (''B'', ''hey'')])) None)"
    by (simp add: example_env_def)
  have t: "transcribe_with_openai example_env ''call.wav'' = Inr ''Speaker A: hi there\<newline>Speaker B: hey''"
    using turn_merging [of example_env "''call.wav''" "[(''A'', ''hi''), (''A'', ''there''), (''B'', ''hey'')]" None] r
    by blast
  have "transcribe_audio example_env ''call.wav'' = Inr ''Speaker A: hi there\<newline>Speaker B: hey''"
    unfolding transcribe_audio_def t by (simp add: example_env_def)
  with r t show ?thesis by blast
qed

lemma transcribe_with_whisper_returns:
  "\<exists>s. transcribe_with_whisper env audio_path = Inr s"
  by (cases "whisper_transcribe env audio_path")
     (auto simp: transcribe_with_whisper_def split: error.splits)

text \<open>
  Claim C2, as stated, fails: on a recording for which the local model returns no
  segments, and without a credential, the transcript is the empty string.
\<close>

theorem transcribe_audio_empty_counterexample:
  "transcribe_audio silent_env ''silence.wav'' = Inr []"
  by (simp add: transcribe_audio_def transcribe_with_whisper_def silent_env_def
      strip_def lstrip_def rstrip_def)

lemma format_segments_keeps:
  "format_segments cur acc segs = Inr r \<Longrightarrow> \<exists>c \<in> set acc. \<not> is_space c \<Longrightarrow> \<exists>c \<in> set r. \<not> is_space c"
proof (induction segs arbitrary: cur acc)
  case Nil
  then show ?case by simp
next
  case (Cons seg segs)
  from Cons.prems(1) obtain t where t: "seg_text seg = Some t"
    by (cases "seg_text seg") (simp_all add: Let_def)
  define speaker where "speaker = ''Speaker '' @ (case seg_speaker seg of None \<Rightarrow> ''Unknown'' | Some s \<Rightarrow> s)"
  show ?case
  proof (cases "Some speaker \<noteq> cur")
    case True
    then have "format_segments (Some speaker) (acc @ ''\<newline>'' @ speaker @ '': '' @ t) segs = Inr r"
      using Cons.prems(1) t by (simp add: Let_def speaker_def)
    moreover have "\<exists>c \<in> set (acc @ ''\<newline>'' @ speaker @ '': '' @ t). \<not> is_space c"
      using Cons.prems(2) by auto
    ultimately show ?thesis by (rule Cons.IH)
  next
    case False
    then have "format_segments cur (acc @ '' '' @ t) segs = Inr r"
      using Cons.prems(1) t by (simp add: Let_def speaker_def)
    moreover have "\<exists>c \<in> set (acc @ '' '' @ t). \<not> is_space c"
      using Cons.prems(2) by auto
    ultimately show ?thesis by (rule Cons.IH)
  qed
qed

lemma format_segments_nonempty:
  assumes "format_segments None [] segs = Inr r" and "segs \<noteq> []"
  shows "\<exists>c \<in> set r. \<not> is_space c"
proof -
  obtain seg rest where s: "segs = seg # rest" using assms(2) by (cases segs) auto
  from assms(1) s obtain t where t: "seg_text seg = Some t"
    by (cases "seg_text seg") (simp_all add: Let_def)
  define speaker where "speaker = ''Speaker '' @ (case seg_speaker seg of None \<Rightarrow> ''Unknown'' | Some s \<Rightarrow> s)"
  have "format_segments (Some speaker) ([] @ ''\<newline>'' @ speaker @ '': '' @ t) rest = Inr r"
    using assms(1) s t by (simp add: Let_def speaker_def)
  moreover have "\<not> is_space CHR ''S''" by (simp add: is_space_def)
  then have "\<exists>c \<in> set ([] @ ''\<newline>'' @ speaker @ '': '' @ t). \<not> is_space c"
    by (auto simp: speaker_def)
  ultimately show ?thesis by (rule format_segments_keeps)
qed

lemma whisper_blocks_nonempty:
  "(\<exists>c \<in> set formatted. \<not> is_space c) \<or> chunk \<noteq> [] \<or> (\<exists>t. Some t \<in> set segs \<and> t \<noteq> [])
   \<Longrightarrow> \<exists>c \<in> set (whisper_blocks formatted chunk segs). \<not> is_space c"
proof (induction segs arbitrary: formatted chunk)
  case Nil
  have "\<not> is_space CHR ''S''" by (simp add: is_space_def)
  then show ?case using Nil by auto
next
  case (Cons seg segs)
  define chunk' where "chunk' = chunk @ (case seg of None \<Rightarrow> [] | Some t \<Rightarrow> t)"
  have s: "\<not> is_space CHR ''S''" by (simp add: is_space_def)
  show ?case
  proof (cases "length chunk' > 200")
    case True
    have "\<exists>c \<in> set (formatted @ ''\<newline>Speaker: '' @ chunk' @ ''\<newline>''). \<not> is_space c"
      using s by auto
    then have "\<exists>c \<in> set (whisper_blocks (formatted @ ''\<newline>Speaker: '' @ chunk' @ ''\<newline>'') [] segs). \<not> is_space c"
      by (intro Cons.IH) blast
    then show ?thesis using True by (simp add: Let_def chunk'_def)
  next
    case False
    have "(\<exists>c \<in> set formatted. \<not> is_space c) \<or> chunk' \<noteq> [] \<or> (\<exists>t. Some t \<in> set segs \<and> t \<noteq> [])"
      using Cons.prems by (auto simp: chunk'_def)
    then have "\<exists>c \<in> set (whisper_blocks formatted chunk' segs). \<not> is_space c"
      by (rule Cons.IH)
    then show ?thesis using False by (simp add: Let_def chunk'_def)
  qed
qed

lemma transcribe_with_openai_empty:
  assumes "transcribe_with_openai env audio_path = Inr []"
  shows "\<exists>txt. openai_transcribe env audio_path = Inr (RespDict (Some []) txt)"
proof -
  from assms obtain segments full_text r where
      o: "openai_transcribe env audio_path = Inr (RespDict (Some segments) full_text)"
      and f: "format_segments None [] segments = Inr r" and e: "strip r = []"
    by (auto simp: transcribe_with_openai_def split: sum.splits response.splits option.splits)
  have "segments = []"
  proof (rule ccontr)
    assume "segments \<noteq> []"
    then have "\<exists>c \<in> set r. \<not> is_space c" using f format_segments_nonempty by blast
    then show False using e by (simp add: strip_eq_Nil_iff)
  qed
  with o show ?thesis by blast
qed

lemma transcribe_with_whisper_empty:
  assumes "transcribe_with_whisper env audio_path = Inr []"
  shows "\<exists>result. whisper_transcribe env audio_path = Inr result
           \<and> (\<forall>t. Some t \<in> set (case result of None \<Rightarrow> [] | Some segments \<Rightarrow> segments) \<longrightarrow> t = [])"
proof -
  from assms obtain result where
      w: "whisper_transcribe env audio_path = Inr result"
      and e: "strip (whisper_blocks [] [] (case result of None \<Rightarrow> [] | Some segments \<Rightarrow> segments)) = []"
    by (auto simp: transcribe_with_whisper_def split: sum.splits error.splits)
  have "\<forall>t. Some t \<in> set (case result of None \<Rightarrow> [] | Some segments \<Rightarrow> segments) \<longrightarrow> t = []"
  proof (rule ccontr)
    assume "\<not> ?thesis"
    then have "\<exists>c \<in> set (whisper_blocks [] [] (case result of None \<Rightarrow> [] | Some segments \<Rightarrow> segments)). \<not> is_space c"
      by (intro whisper_blocks_nonempty) blast
    then show False using e by (simp add: strip_eq_Nil_iff)
  qed
  with w show ?thesis by blast
qed

text \<open>
  Claim C2, amended. For every audio input \<open>transcribe_audio\<close> returns a string and
  raises nothing. When the remote path is not taken or fails and the local path raises,
  the string is the failure description "Transcription failed: " followed by the message,
  which is not empty. The string is empty only when the path that answers has no text:
  the remote response holds an empty list of segments, or no segment of the local result
  has a non-empty text.
\<close>

theorem transcribe_audio_never_raises:
  "(\<exists>s. transcribe_audio env audio_path = Inr s)
   \<and> ((\<not> api_key env \<or> (\<exists>e. transcribe_with_openai env audio_path = Inl e))
        \<and> whisper_transcribe env audio_path = Inl (Exception msg)
      \<longrightarrow> transcribe_audio env audio_path = Inr (''Transcription failed: '' @ msg)
          \<and> ''Transcription failed: '' @ msg \<noteq> [])
   \<and> (transcribe_audio env audio_path = Inr []
      \<longrightarrow> (api_key env \<and> (\<exists>txt. openai_transcribe env audio_path = Inr (RespDict (Some []) txt)))
          \<or> (\<exists>result. whisper_transcribe env audio_path = Inr result
                \<and> (\<forall>t. Some t \<in> set (case result of None \<Rightarrow> [] | Some segments \<Rightarrow> segments)
                       \<longrightarrow> t = [])))"
proof (intro conjI impI)
  show "\<exists>s. transcribe_audio env audio_path = Inr s"
    using transcribe_with_whisper_returns [of env audio_path]
    by (auto simp: transcribe_audio_def split: sum.splits)
next
  assume a: "(\<not> api_key env \<or> (\<exists>e. transcribe_with_openai env audio_path = Inl e))
        \<and> whisper_transcribe env audio_path = Inl (Exception msg)"
  then have "transcribe_with_whisper env audio_path = Inr (''Transcription failed: '' @ msg)"
    by (simp add: transcribe_with_whisper_def)
  with a show "transcribe_audio env audio_path = Inr (''Transcription failed: '' @ msg)"
    by (auto simp: transcribe_audio_def)
  show "''Transcription failed: '' @ msg \<noteq> []" by simp
next
  assume e: "transcribe_audio env audio_path = Inr []"
  then consider "api_key env" "transcribe_with_openai env audio_path = Inr []"
    | "transcribe_with_whisper env audio_path = Inr []"
    by (auto simp: transcribe_audio_def split: if_splits sum.splits)
  then show "(api_key env \<and> (\<exists>txt. openai_transcribe env audio_path = Inr (RespDict (Some []) txt)))
          \<or> (\<exists>result. whisper_transcribe env audio_path = Inr result
                \<and> (\<forall>t. Some t \<in> set (case result of None \<Rightarrow> [] | Some segments \<Rightarrow> segments)
                       \<longrightarrow> t = []))"
  proof cases
    case 1
    then show ?thesis using transcribe_with_openai_empty by blast
  next
    case 2
    then show ?thesis using transcribe_with_whisper_empty by blast
  qed
qed

theorem transcribe_audio_never_raises_witness:
  "api_key failing_env
   \<and> transcribe_with_openai failing_env ''call.wav'' = Inl (Exception ''connection refused'')
   \<and> whisper_transcribe failing_env ''call.wav'' = Inl (Exception ''cannot load audio'')
   \<and> transcribe_audio failing_env ''call.wav'' = Inr ''Transcription failed: cannot load audio''"
proof -
  have o: "transcribe_with_openai failing_env ''call.wav'' = Inl (Exception ''connection refused'')"
    by (simp add: transcribe_with_openai_def failing_env_def)
  have w: "whisper_transcribe failing_env ''call.wav'' = Inl (Exception ''cannot load audio'')"
    by (simp add: failing_env_def)
  have k: "api_key failing_env" by (simp add: failing_env_def)
  have "transcribe_audio failing_env ''call.wav'' = Inr (''Transcription failed: '' @ ''cannot load audio'')"
    using transcribe_audio_never_raises [of failing_env "''call.wav''" "''cannot load audio''"] o w
    by blast
  with o w k show ?thesis by simp
qed

section \<open>Properties of the remote chunking\<close>


lemma concat_slices_take:
  "concat (map (\<lambda>i. slice t i (i + k)) (map (\<lambda>j. j * k) [0..<m])) = take (m * k) t"
proof (induction m)
  case 0
  show ?case by simp
next
  case (Suc m)
  have "take (m * k) t @ take k (drop (m * k) t) = take (m * k + k) t"
    by (simp add: take_add)
  with Suc show ?case by (simp add: slice_def add.commute)
qed

lemma range_step_covers: "0 < k \<Longrightarrow> (n::nat) \<le> (n + k - 1) div k * k"
proof -
  assume k: "0 < k"
  have "(n + k - 1) div k * k = (n + k - 1) - (n + k - 1) mod k"
    by (simp add: minus_mod_eq_div_mult)
  moreover have "(n + k - 1) mod k \<le> k - 1"
    using k by (metis Suc_pred' less_Suc_eq_le mod_less_divisor)
  ultimately show ?thesis using k by linarith
qed

lemma concat_openai_chunks: "concat (openai_chunks t) = t"
proof -
  have "concat (openai_chunks t)
          = take ((length t + max_chunk_size - 1) div max_chunk_size * max_chunk_size) t"
    unfolding openai_chunks_def range_step_def by (rule concat_slices_take)
  moreover have "length t \<le> (length t + max_chunk_size - 1) div max_chunk_size * max_chunk_size"
    by (rule range_step_covers) (simp add: max_chunk_size_def)
  ultimately show ?thesis by simp
qed

lemma length_openai_chunks: "length (openai_chunks t) = (length t + 9999) div 10000"
  by (simp add: openai_chunks_def range_step_def max_chunk_size_def)

lemma nth_openai_chunks:
  "i < length (openai_chunks t) \<Longrightarrow> openai_chunks t ! i = take 10000 (drop (i * 10000) t)"
  by (simp add: openai_chunks_def range_step_def max_chunk_size_def slice_def)

lemma length_nth_openai_chunks:
  assumes "i < length (openai_chunks t)"
  shows "length (openai_chunks t ! i) = min 10000 (length t - i * 10000)"
  using assms by (simp add: nth_openai_chunks)

text \<open>
  Claim C5. The chunks that the remote summarisation path cuts a transcript into are the
  consecutive slices of 10000 characters: their concatenation in order is the transcript,
  there are as many as the length divided by 10000 and rounded up, every chunk is
  non-empty, every chunk but the last has exactly 10000 characters and the last at most
  10000. A transcript of 25000 characters gives exactly 3 chunks. A transcript of more
  than 10000 characters gives at least 2 chunks, and the remote path summarizes exactly
  these chunks, in order, before it combines the partial summaries.
\<close>

theorem openai_chunks_reconstruct:
  "concat (openai_chunks t) = t
   \<and> length (openai_chunks t) = (length t + 9999) div 10000
   \<and> (\<forall>i < length (openai_chunks t).
         openai_chunks t ! i = slice t (i * 10000) (i * 10000 + 10000)
         \<and> 0 < length (openai_chunks t ! i)
         \<and> (if i + 1 < length (openai_chunks t) then length (openai_chunks t ! i) = 10000
            else length (openai_chunks t ! i) \<le> 10000))
   \<and> (length t = 25000 \<longrightarrow> length (openai_chunks t) = 3)
   \<and> (10000 < length t \<longrightarrow>
        2 \<le> length (openai_chunks t)
        \<and> summarize_with_openai env t
            = (case summarize_chunks env [] (openai_chunks t) of
                 Inl e \<Rightarrow> Inl e
               | Inr chunk_summaries \<Rightarrow>
                   chat env system_prompt
                     (''Create a final summary combining these partial summaries: ''
                      @ join '' '' chunk_summaries)))"
proof (intro conjI allI impI)
  show "2 \<le> length (openai_chunks t)" if "10000 < length t"
    using that by (simp add: length_openai_chunks)
  show "summarize_with_openai env t
            = (case summarize_chunks env [] (openai_chunks t) of
                 Inl e \<Rightarrow> Inl e
               | Inr chunk_summaries \<Rightarrow>
                   chat env system_prompt
                     (''Create a final summary combining these partial summaries: ''
                      @ join '' '' chunk_summaries))" if "10000 < length t"
    using that by (simp add: summarize_with_openai_def max_chunk_size_def)
  show "concat (openai_chunks t) = t" by (rule concat_openai_chunks)
  show "length (openai_chunks t) = (length t + 9999) div 10000" by (rule length_openai_chunks)
  show "length (openai_chunks t) = 3" if "length t = 25000"
    using that by (simp add: length_openai_chunks)
next
  fix i assume i: "i < length (openai_chunks t)"
  show "openai_chunks t ! i = slice t (i * 10000) (i * 10000 + 10000)"
    using i by (simp add: nth_openai_chunks slice_def)
  have b: "i < (length t + 9999) div 10000" using i by (simp add: length_openai_chunks)
  then have "i * 10000 < length t" by linarith
  then show "0 < length (openai_chunks t ! i)"
    using i by (simp add: length_nth_openai_chunks)
  show "if i + 1 < length (openai_chunks t) then length (openai_chunks t ! i) = 10000
        else length (openai_chunks t ! i) \<le> 10000"
  proof (cases "i + 1 < length (openai_chunks t)")
    case True
    then have "i + 1 < (length t + 9999) div 10000" by (simp add: length_openai_chunks)
    then have "i * 10000 + 10000 < length t" by linarith
    then show ?thesis using True i by (simp add: length_nth_openai_chunks)
  next
    case False
    then show ?thesis using i by (simp add: length_nth_openai_chunks)
  qed
qed

theorem openai_chunks_reconstruct_witness:
  "length (replicate 25000 CHR ''a'') = 25000
   \<and> length (openai_chunks (replicate 25000 CHR ''a'')) = 3
   \<and> concat (openai_chunks (replicate 25000 CHR ''a'')) = replicate 25000 CHR ''a''"
proof -
  let ?t = "replicate 25000 CHR ''a''"
  have len: "length ?t = 25000" by simp
  have three: "length (openai_chunks ?t) = 3"
    using openai_chunks_reconstruct [of ?t] len by blast
  have "concat (openai_chunks ?t) = ?t"
    using openai_chunks_reconstruct [of ?t] by blast
  with three len show ?thesis by blast
qed

section \<open>Properties of the Summarizer\<close>










lemma clean_transcript_empty: "clean_transcript [] = []"
  by (simp add: clean_transcript_def strip_def lstrip_def rstrip_def)

text \<open>
  Claim C3, as stated, fails: a successful remote call is returned as it is, here without
  any section marker, and a local model that cannot be loaded makes the Summarizer raise.
\<close>

theorem generate_summary_counterexample:
  "generate_summary remote_env [] = Inr ''ok''
   \<and> \<not> contains ''Key Points'' ''ok''
   \<and> generate_summary broken_local_env [] = Inl (Exception ''cannot load facebook/bart-large-cnn'')"
  by (simp add: generate_summary_def summarize_with_openai_def summarize_with_transformers_def
      remote_env_def broken_local_env_def clean_transcript_empty max_chunk_size_def)

lemma simple_extractive_summary_shape:
  "\<exists>narrative points. simple_extractive_summary t
     = ''## Meeting Summary\<newline>\<newline>'' @ narrative @ ''\<newline>\<newline>## Key Points\<newline>\<newline>'' @ points"
proof -
  define sentences where "sentences = split_sentences t"
  define narrative where "narrative = join '' '' (take 3 sentences
            @ slice sentences (length sentences div 2) (length sentences div 2 + 2)
            @ drop (length sentences - 3) sentences)"
  define points where "points =
         ''- Meeting included '' @ str_of_nat (card (set (find_speakers t))) @ '' participants\<newline>''
         @ ''- The transcript contains '' @ str_of_nat (length sentences) @ '' sentences\<newline>''
         @ ''- Total of '' @ str_of_nat (length (find_speakers t)) @ '' speaker changes occurred\<newline>''"
  have "simple_extractive_summary t
     = ''## Meeting Summary\<newline>\<newline>'' @ narrative @ ''\<newline>\<newline>## Key Points\<newline>\<newline>'' @ points"
    by (simp add: simple_extractive_summary_def Let_def sentences_def narrative_def points_def)
  then show ?thesis by blast
qed

lemma summarize_with_transformers_shape:
  assumes "pipeline env = Inr f"
  shows "\<exists>narrative points. summarize_with_transformers env t
     = Inr (''## Meeting Summary\<newline>\<newline>'' @ narrative @ ''\<newline>\<newline>## Key Points\<newline>\<newline>'' @ points)"
proof -
  define narrative where "narrative = join '' '' (summarize_local_chunks f (chunk_text t 1000))"
  define points where "points = concat (map (\<lambda>sentence. ''- '' @ sentence @ ''\<newline>'')
                       (filter (\<lambda>sentence. length sentence > 10) (take 5 (split_sentences narrative))))"
  have "summarize_with_transformers env t
     = Inr (''## Meeting Summary\<newline>\<newline>'' @ narrative @ ''\<newline>\<newline>## Key Points\<newline>\<newline>'' @ points)"
    using assms by (simp add: summarize_with_transformers_def Let_def narrative_def points_def)
  then show ?thesis by blast
qed

text \<open>
  Claim C3, amended. For every transcript, empty, short or long: when the remote path is
  not taken or fails, and the local model loads wherever its library is installed, the
  Summarizer returns, without raising, a document that opens with the narrative section
  under "## Meeting Summary" and goes on with the "## Key Points" section. The text of a
  successful remote call is returned unchanged.
\<close>

theorem generate_summary_sections:
  "((\<not> summary_api_key env \<or> (\<exists>e. summarize_with_openai env (clean_transcript t) = Inl e))
      \<and> (has_transformers env \<longrightarrow> (\<exists>f. pipeline env = Inr f))
    \<longrightarrow> (\<exists>narrative points. generate_summary env t
           = Inr (''## Meeting Summary\<newline>\<newline>'' @ narrative
                  @ ''\<newline>\<newline>## Key Points\<newline>\<newline>'' @ points)))
   \<and> (summary_api_key env \<and> summarize_with_openai env (clean_transcript t) = Inr s
    \<longrightarrow> generate_summary env t = Inr s)"
proof (intro conjI impI)
  assume a: "(\<not> summary_api_key env \<or> (\<exists>e. summarize_with_openai env (clean_transcript t) = Inl e))
      \<and> (has_transformers env \<longrightarrow> (\<exists>f. pipeline env = Inr f))"
  let ?fallback = "if has_transformers env then summarize_with_transformers env (clean_transcript t)
             else Inr (simple_extractive_summary (clean_transcript t))"
  have g: "generate_summary env t = ?fallback"
    using a by (auto simp: generate_summary_def Let_def)
  have "\<exists>narrative points. ?fallback
           = Inr (''## Meeting Summary\<newline>\<newline>'' @ narrative
                  @ ''\<newline>\<newline>## Key Points\<newline>\<newline>'' @ points)"
  proof (cases "has_transformers env")
    case True
    then obtain f where "pipeline env = Inr f" using a by blast
    then show ?thesis
      using summarize_with_transformers_shape [of env f "clean_transcript t"] True by simp
  next
    case False
    then show ?thesis
      using simple_extractive_summary_shape [of "clean_transcript t"] by simp
  qed
  then show "\<exists>narrative points. generate_summary env t
           = Inr (''## Meeting Summary\<newline>\<newline>'' @ narrative
                  @ ''\<newline>\<newline>## Key Points\<newline>\<newline>'' @ points)"
    unfolding g .
next
  assume "summary_api_key env \<and> summarize_with_openai env (clean_transcript t) = Inr s"
  then show "generate_summary env t = Inr s"
    by (simp add: generate_summary_def Let_def)
qed

theorem generate_summary_sections_witness:
  "\<not> summary_api_key offline_env
   \<and> \<not> has_transformers offline_env
   \<and> (\<exists>narrative points. generate_summary offline_env []
        = Inr (''## Meeting Summary\<newline>\<newline>'' @ narrative
               @ ''\<newline>\<newline>## Key Points\<newline>\<newline>'' @ points))
   \<and> summary_api_key remote_env
   \<and> summarize_with_openai remote_env (clean_transcript []) = Inr ''ok''
   \<and> generate_summary remote_env [] = Inr ''ok''"
proof -
  have k: "\<not> summary_api_key offline_env" "\<not> has_transformers offline_env"
    by (simp_all add: offline_env_def)
  then have 1: "\<exists>narrative points. generate_summary offline_env []
        = Inr (''## Meeting Summary\<newline>\<newline>'' @ narrative
               @ ''\<newline>\<newline>## Key Points\<newline>\<newline>'' @ points)"
    using generate_summary_sections [of offline_env "[]"] by blast
  have r: "summary_api_key remote_env"
     "summarize_with_openai remote_env (clean_transcript []) = Inr ''ok''"
    by (simp_all add: remote_env_def summarize_with_openai_def clean_transcript_empty max_chunk_size_def)
  then have 2: "generate_summary remote_env [] = Inr ''ok''"
    using generate_summary_sections [of remote_env "[]" "''ok''"] by blast
  from k 1 r 2 show ?thesis by blast
qed

text \<open>
  Claim C10. The rule-based summarization path is deterministic: whatever the services
  of two runs would answer, with no credential and no local model library both runs
  return the rule-based summary of the cleaned transcript, which is a function of the
  input string alone (the set of speakers enters only by its size), so equal inputs give
  identical outputs.
\<close>

theorem rule_based_summary_deterministic:
  "\<not> summary_api_key e1 \<and> \<not> has_transformers e1
   \<and> \<not> summary_api_key e2 \<and> \<not> has_transformers e2 \<and> t1 = t2
   \<longrightarrow> generate_summary e1 t1 = Inr (simple_extractive_summary (clean_transcript t1))
       \<and> generate_summary e2 t2 = Inr (simple_extractive_summary (clean_transcript t2))
       \<and> simple_extractive_summary (clean_transcript t1) = simple_extractive_summary (clean_transcript t2)
       \<and> generate_summary e1 t1 = generate_summary e2 t2"
  by (simp add: generate_summary_def Let_def)

theorem rule_based_summary_deterministic_witness:
  "\<not> summary_api_key offline_env \<and> \<not> has_transformers offline_env
   \<and> \<not> summary_api_key idle_env \<and> \<not> has_transformers idle_env
   \<and> chat offline_env [] [] \<noteq> chat idle_env [] []
   \<and> generate_summary offline_env example_transcript = generate_summary idle_env example_transcript"
proof -
  have k: "\<not> summary_api_key offline_env \<and> \<not> has_transformers offline_env
   \<and> \<not> summary_api_key idle_env \<and> \<not> has_transformers idle_env"
    by (simp add: offline_env_def idle_env_def)
  have d: "chat offline_env [] [] \<noteq> chat idle_env [] []"
    by (simp add: offline_env_def idle_env_def)
  have "generate_summary offline_env example_transcript = generate_summary idle_env example_transcript"
    using rule_based_summary_deterministic [of offline_env idle_env example_transcript example_transcript] k
    by blast
  with k d show ?thesis by blast
qed


















lemma chunk_words_words:
  assumes "\<forall>w \<in> set current_chunk. is_word w" and "\<forall>w \<in> set words. is_word w"
  shows "concat (map split_ws (chunk_words max_length chunks current_chunk current_length words))
           = concat (map split_ws chunks) @ current_chunk @ words"
  using assms
proof (induction words arbitrary: chunks current_chunk current_length)
  case Nil
  then show ?case by (simp add: split_ws_join)
next
  case (Cons word words)
  show ?case
  proof (cases "current_length + length word + 1 > max_length")
    case True
    have "concat (map split_ws (chunk_words max_length (chunks @ [join '' '' current_chunk]) [word] (length word) words))
            = concat (map split_ws (chunks @ [join '' '' current_chunk])) @ [word] @ words"
      using Cons.prems by (intro Cons.IH) simp_all
    then show ?thesis using True Cons.prems by (simp add: split_ws_join)
  next
    case False
    have "concat (map split_ws (chunk_words max_length chunks (current_chunk @ [word])
                   (current_length + (length word + 1)) words))
            = concat (map split_ws chunks) @ (current_chunk @ [word]) @ words"
      using Cons.prems by (intro Cons.IH) simp_all
    then show ?thesis using False by simp
  qed
qed

lemma chunk_words_joined:
  assumes "\<forall>w \<in> set current_chunk. is_word w" and "\<forall>w \<in> set words. is_word w"
      and "\<forall>c \<in> set chunks. join '' '' (split_ws c) = c"
      and "c \<in> set (chunk_words max_length chunks current_chunk current_length words)"
  shows "join '' '' (split_ws c) = c"
  using assms
proof (induction words arbitrary: chunks current_chunk current_length)
  case Nil
  then show ?case by (auto simp: split_ws_join split: if_splits)
next
  case (Cons word words)
  show ?case
  proof (cases "current_length + length word + 1 > max_length")
    case True
    have "\<forall>c \<in> set (chunks @ [join '' '' current_chunk]). join '' '' (split_ws c) = c"
      using Cons.prems by (auto simp: split_ws_join)
    moreover have "c \<in> set (chunk_words max_length (chunks @ [join '' '' current_chunk]) [word] (length word) words)"
      using Cons.prems(4) True by simp
    ultimately show ?thesis using Cons.prems(2) by (intro Cons.IH [of "[word]"]) simp_all
  next
    case False
    then have "c \<in> set (chunk_words max_length chunks (current_chunk @ [word])
                   (current_length + (length word + 1)) words)"
      using Cons.prems(4) by simp
    then show ?thesis using Cons.prems by (intro Cons.IH [of "current_chunk @ [word]"]) simp_all
  qed
qed

lemma chunk_words_bound:
  assumes "\<forall>w \<in> set words. length w \<le> max_length"
      and "\<forall>c \<in> set chunks. length c \<le> max_length"
      and "length (join '' '' current_chunk) \<le> current_length"
      and "length (join '' '' current_chunk) \<le> max_length"
      and "c \<in> set (chunk_words max_length chunks current_chunk current_length words)"
  shows "length c \<le> max_length"
  using assms
proof (induction words arbitrary: chunks current_chunk current_length)
  case Nil
  then show ?case by (auto split: if_splits)
next
  case (Cons word words)
  show ?case
  proof (cases "current_length + length word + 1 > max_length")
    case True
    then have "c \<in> set (chunk_words max_length (chunks @ [join '' '' current_chunk]) [word] (length word) words)"
      using Cons.prems(5) by simp
    moreover have "\<forall>c \<in> set (chunks @ [join '' '' current_chunk]). length c \<le> max_length"
      using Cons.prems by auto
    ultimately show ?thesis
      using Cons.prems(1) by (intro Cons.IH [of _ "[word]" "length word"]) simp_all
  next
    case False
    then have m: "c \<in> set (chunk_words max_length chunks (current_chunk @ [word])
                   (current_length + (length word + 1)) words)"
      using Cons.prems(5) by simp
    have l: "length (join '' '' (current_chunk @ [word])) \<le> current_length + (length word + 1)"
      using Cons.prems(3) by (simp add: length_join_snoc)
    then have "length (join '' '' (current_chunk @ [word])) \<le> max_length"
      using False by simp
    with m l show ?thesis
      using Cons.prems(1,2) by (intro Cons.IH [of chunks "current_chunk @ [word]"]) simp_all
  qed
qed

lemma split_ws_single_word: "is_word w \<Longrightarrow> split_ws w = [w]"
  using split_ws_word [of w "[]"] by (simp add: split_ws_Nil)

text \<open>
  Claim C6, as stated, fails: a word longer than the bound is not split, so its chunk is
  longer than 1000 characters.
\<close>

theorem chunk_text_counterexample:
  "chunk_text (replicate 1001 CHR ''a'') 1000 = [[], replicate 1001 CHR ''a'']
   \<and> \<not> (\<forall>c \<in> set (chunk_text (replicate 1001 CHR ''a'') 1000). length c \<le> 1000)"
proof -
  have "is_word (replicate 1001 CHR ''a'')" by (simp add: is_word_def is_space_def)
  then have "split_ws (replicate 1001 CHR ''a'') = [replicate 1001 CHR ''a'']"
    by (rule split_ws_single_word)
  then have "chunk_text (replicate 1001 CHR ''a'') 1000 = [[], replicate 1001 CHR ''a'']"
    by (simp add: chunk_text_def)
  then show ?thesis by simp
qed

text \<open>
  Claim C6, amended. \<open>chunk_text\<close> never splits inside a word: for every input and bound,
  the words of the chunks, chunk after chunk, are exactly the words of the input in their
  order, so every word token stands whole in exactly one chunk, and every chunk is its own
  words joined by single spaces. Every chunk has at most \<open>max_length\<close> (1000) characters
  provided that no word of the input is longer than that.
\<close>

theorem chunk_text_word_bounded:
  "concat (map split_ws (chunk_text txt max_length)) = split_ws txt
   \<and> (\<forall>c \<in> set (chunk_text txt max_length). join '' '' (split_ws c) = c)
   \<and> ((\<forall>w \<in> set (split_ws txt). length w \<le> max_length)
        \<longrightarrow> (\<forall>c \<in> set (chunk_text txt max_length). length c \<le> max_length))"
proof (intro conjI ballI impI)
  have w: "\<forall>w \<in> set (split_ws txt). is_word w" using split_ws_words by blast
  show "concat (map split_ws (chunk_text txt max_length)) = split_ws txt"
    unfolding chunk_text_def using chunk_words_words [of "[]" "split_ws txt" max_length "[]" 0] w
    by simp
  show "join '' '' (split_ws c) = c" if "c \<in> set (chunk_text txt max_length)" for c
    using that w chunk_words_joined [of "[]" "split_ws txt" "[]" c max_length 0]
    unfolding chunk_text_def by simp
  show "length c \<le> max_length"
    if "\<forall>w \<in> set (split_ws txt). length w \<le> max_length" "c \<in> set (chunk_text txt max_length)" for c
    using that chunk_words_bound [of "split_ws txt" max_length "[]" "[]" 0 c]
    unfolding chunk_text_def by simp
qed

theorem chunk_text_word_bounded_witness:
  "split_ws ''alpha beta gamma'' = [''alpha'', ''beta'', ''gamma'']
   \<and> chunk_text ''alpha beta gamma'' 11 = [''alpha beta'', ''gamma'']
   \<and> length ''alpha'' \<le> (11::nat) \<and> length ''beta'' \<le> (11::nat) \<and> length ''gamma'' \<le> (11::nat)
   \<and> length ''alpha beta'' \<le> (11::nat)
   \<and> join '' '' (split_ws ''alpha beta'') = ''alpha beta''"
proof -
  have s: "split_ws ''alpha beta gamma'' = [''alpha'', ''beta'', ''gamma'']"
    by (simp add: split_ws.simps is_space_def)
  have c: "chunk_text ''alpha beta gamma'' 11 = [''alpha beta'', ''gamma'']"
    unfolding chunk_text_def s by simp
  have b: "\<forall>w \<in> set (split_ws ''alpha beta gamma''). length w \<le> 11"
    unfolding s by simp
  have m: "''alpha beta'' \<in> set (chunk_text ''alpha beta gamma'' 11)"
    unfolding c by simp
  have "length ''alpha beta'' \<le> (11::nat)"
    using chunk_text_word_bounded [of "''alpha beta gamma''" 11] b m by blast
  moreover have "join '' '' (split_ws ''alpha beta'') = ''alpha beta''"
    using chunk_text_word_bounded [of "''alpha beta gamma''" 11] m by blast
  ultimately show ?thesis using s c by simp
qed

section \<open>Properties of the Title Suggester\<close>

lemma pad_titles_placeholders:
  "pad_titles titles
     = titles @ map (\<lambda>n. ''Meeting Summary '' @ str_of_nat n) [Suc (length titles)..<4]"
proof (induction titles rule: pad_titles.induct)
  case (1 titles)
  show ?case
  proof (cases "length titles < 3")
    case True
    then have "[Suc (length titles)..<4] = Suc (length titles) # [Suc (Suc (length titles))..<4]"
      by (simp add: upt_conv_Cons)
    then show ?thesis
      using 1 True by (subst pad_titles.simps) simp
  next
    case False
    then show ?thesis by (subst pad_titles.simps) simp
  qed
qed

lemma pad_titles_three:
  assumes "\<forall>t \<in> set titles. t \<noteq> []"
  shows "length (take 3 (pad_titles titles)) = 3 \<and> (\<forall>t \<in> set (take 3 (pad_titles titles)). t \<noteq> [])"
proof
  show "length (take 3 (pad_titles titles)) = 3"
    by (auto simp: pad_titles_placeholders)
  have "\<forall>t \<in> set (pad_titles titles). t \<noteq> []"
    using assms by (auto simp: pad_titles_placeholders)
  then show "\<forall>t \<in> set (take 3 (pad_titles titles)). t \<noteq> []"
    by (meson in_set_takeD)
qed

lemma generate_titles_with_openai_three:
  assumes "generate_titles_with_openai env summary = Inr titles"
  shows "length titles = 3 \<and> (\<forall>t \<in> set titles. t \<noteq> [])"
proof -
  from assms obtain kept where k: "titles = take 3 (pad_titles kept)" "\<forall>t \<in> set kept. t \<noteq> []"
    by (auto simp: generate_titles_with_openai_def Let_def split: sum.splits)
  from k(2) show ?thesis unfolding k(1) by (rule pad_titles_three)
qed

lemma render_title_template:
  assumes "2 \<le> length topics" and "template \<in> set templates"
  shows "\<exists>title. render_title cap topics template = Inr title \<and> title \<noteq> []"
proof -
  have g: "get_item topics 0 = Inr (topics ! 0)" "get_item topics (Suc 0) = Inr (topics ! 1)"
    using assms(1) by (auto simp: get_item_def)
  have "\<forall>template \<in> set templates. \<exists>title. render_title cap topics template = Inr title \<and> title \<noteq> []"
    unfolding templates_def by (simp add: render_title_def g)
  with assms(2) show ?thesis by blast
qed

lemma render_titles_templates:
  assumes "2 \<le> length topics" and "set ts \<subseteq> set templates"
  shows "\<exists>titles. render_titles cap topics ts = Inr titles
           \<and> length titles = length ts \<and> (\<forall>t \<in> set titles. t \<noteq> [])"
  using assms(2)
proof (induction ts)
  case Nil
  show ?case by simp
next
  case (Cons template rest)
  then obtain title where t: "render_title cap topics template = Inr title" "title \<noteq> []"
    using render_title_template [OF assms(1), of template cap] by auto
  from Cons obtain titles where r: "render_titles cap topics rest = Inr titles"
      "length titles = length rest" "\<forall>t \<in> set titles. t \<noteq> []"
    by auto
  show ?case using t r by simp
qed

lemma extract_key_topics_nonempty: "extract_key_topics summary \<noteq> []"
  by (simp add: extract_key_topics_def Let_def)

lemma generate_titles_rule_based_three:
  assumes "mset (shuffle env templates) = mset templates"
  shows "\<exists>titles. generate_titles_rule_based env summary = Inr titles
           \<and> length titles = 3 \<and> (\<forall>t \<in> set titles. t \<noteq> [])"
proof -
  define topics where "topics =
     (if length (extract_key_topics summary) < 2
      then extract_key_topics summary @ [''Discussion'', ''Planning'', ''Review'']
      else extract_key_topics summary)"
  have two: "2 \<le> length topics" by (simp add: topics_def)
  have "set (shuffle env templates) = set templates" using assms by (rule mset_eq_setD)
  then have sub: "set (take 3 (shuffle env templates)) \<subseteq> set templates"
    by (metis set_take_subset)
  have "length (shuffle env templates) = length templates" using assms by (rule mset_eq_length)
  then have len: "length (take 3 (shuffle env templates)) = 3" by (simp add: templates_def)
  obtain titles where "render_titles (capitalize env) topics (take 3 (shuffle env templates)) = Inr titles"
      "length titles = length (take 3 (shuffle env templates))" "\<forall>t \<in> set titles. t \<noteq> []"
    using render_titles_templates [OF two sub] by blast
  then show ?thesis
    using len by (simp add: generate_titles_rule_based_def Let_def topics_def)
qed

text \<open>
  Claim C1. For every summary the Title Suggester returns a list of exactly 3 non-empty
  strings and raises nothing, whatever the remote service answers and whichever order
  the shuffle leaves the eight templates in. This holds for the remote path whenever it
  returns (its titles are the lines that pass the filter, then the placeholders
  "Meeting Summary N", cut to 3) and for the rule-based path, which never raises.
\<close>

theorem generate_titles_three:
  "(\<forall>titles. generate_titles_with_openai env summary = Inr titles
      \<longrightarrow> length titles = 3 \<and> (\<forall>t \<in> set titles. t \<noteq> []))
   \<and> (\<forall>kept. take 3 (pad_titles kept)
         = take 3 (kept @ map (\<lambda>n. ''Meeting Summary '' @ str_of_nat n) [Suc (length kept)..<4]))
   \<and> (mset (shuffle env templates) = mset templates \<longrightarrow>
        (\<exists>titles. generate_titles_rule_based env summary = Inr titles
           \<and> length titles = 3 \<and> (\<forall>t \<in> set titles. t \<noteq> []))
        \<and> (\<exists>titles. generate_titles env summary = Inr titles
           \<and> length titles = 3 \<and> (\<forall>t \<in> set titles. t \<noteq> [])))"
proof (intro conjI allI impI)
  fix titles assume "generate_titles_with_openai env summary = Inr titles"
  then have "length titles = 3 \<and> (\<forall>t \<in> set titles. t \<noteq> [])"
    by (rule generate_titles_with_openai_three)
  then show "length titles = 3" "\<forall>t \<in> set titles. t \<noteq> []" by simp_all
next
  fix kept
  show "take 3 (pad_titles kept)
         = take 3 (kept @ map (\<lambda>n. ''Meeting Summary '' @ str_of_nat n) [Suc (length kept)..<4])"
    by (simp only: pad_titles_placeholders)
next
  assume p: "mset (shuffle env templates) = mset templates"
  then show rb: "\<exists>titles. generate_titles_rule_based env summary = Inr titles
           \<and> length titles = 3 \<and> (\<forall>t \<in> set titles. t \<noteq> [])"
    by (rule generate_titles_rule_based_three)
  show "\<exists>titles. generate_titles env summary = Inr titles
           \<and> length titles = 3 \<and> (\<forall>t \<in> set titles. t \<noteq> [])"
  proof (cases "title_api_key env")
    case False
    then show ?thesis using rb by (simp add: generate_titles_def)
  next
    case True
    show ?thesis
    proof (cases "generate_titles_with_openai env summary")
      case (Inl e)
      then show ?thesis using rb True by (simp add: generate_titles_def)
    next
      case (Inr titles)
      then show ?thesis
        using generate_titles_with_openai_three [OF Inr] True by (simp add: generate_titles_def)
    qed
  qed
qed

theorem generate_titles_three_witness:
  "mset (shuffle fallback_title_env templates) = mset templates
   \<and> (\<exists>titles. generate_titles fallback_title_env example_summary_text = Inr titles \<and> length titles = 3)
   \<and> generate_titles_with_openai remote_title_env example_summary_text
       = Inr [''Budget Review'', ''Meeting Summary 2'', ''Meeting Summary 3'']
   \<and> length [''Budget Review'', ''Meeting Summary 2'', ''Meeting Summary 3''] = 3"
proof -
  have m: "mset (shuffle fallback_title_env templates) = mset templates"
    by (simp add: fallback_title_env_def)
  then have 1: "\<exists>titles. generate_titles fallback_title_env example_summary_text = Inr titles \<and> length titles = 3"
    using generate_titles_three [of fallback_title_env example_summary_text] by blast
  have "str_of_nat 2 = ''2''" "str_of_nat 3 = ''3''"
    by (simp_all add: str_of_nat.simps digit_char_def)
  then have s: "str_of_nat (Suc (Suc 0)) = ''2''" "str_of_nat (Suc (Suc (Suc 0))) = ''3''"
    by (simp_all add: numeral_2_eq_2 numeral_3_eq_3)
  have 2: "generate_titles_with_openai remote_title_env example_summary_text
       = Inr [''Budget Review'', ''Meeting Summary 2'', ''Meeting Summary 3'']"
    by (simp add: generate_titles_with_openai_def remote_title_env_def Let_def split_on_def
        strip_def lstrip_def rstrip_def is_space_def is_list_markup_def is_digit_def
        pad_titles_placeholders upt_conv_Cons s)
  have "length [''Budget Review'', ''Meeting Summary 2'', ''Meeting Summary 3''] = 3"
    using generate_titles_three [of remote_title_env example_summary_text] 2 by blast
  with m 1 2 show ?thesis by blast
qed















end
